theory Spec2Isabelle
  imports Main "HOL-Library.Word"
begin

unbundle bit_operations_syntax

section \<open>The E2EE context of lib-jitsi-meet: data model\<close>

text \<open>
  The class \<open>E2EEcontext\<close> keeps a ring of crypto keys, the index of the key in use and a
  send counter per synchronization source. Its two stream transforms, \<open>_encodeFunction\<close>
  and \<open>_decodeFunction\<close>, are modelled below as functions on that state. Frame payloads
  are lists of bytes. The counters are JavaScript numbers: they are modelled as natural
  numbers, which is exact below \<open>2^53\<close>.
\<close>

type_synonym byte = "8 word"

text \<open>
  The keys of the table \<open>unencryptedBytes\<close>. A frame's \<open>chunk.type\<close> is one of them
  (\<open>Some Key\<close>, \<open>Some Delta\<close>) or a value the table has no entry for (\<open>None\<close>): the
  type \<open>empty\<close> of a video frame, or \<open>undefined\<close> on an audio frame, which has no
  type. The code reads the type only to index the table.
\<close>

datatype frameType = Key | Delta

definition keyRingSize :: nat where
  "keyRingSize = 8"

definition ivLength :: nat where
  "ivLength = 12"

fun unencryptedBytes :: "frameType \<Rightarrow> nat" where
  "unencryptedBytes Key = 10"
| "unencryptedBytes Delta = 3"

text \<open>What a transform can throw, and what it hands to \<open>logger.error\<close>.\<close>

datatype error = RangeError | TypeError

datatype logEntry = LogText string | LogRejection

record chunk =
  type :: "frameType option"
  synchronizationSource :: nat
  timestamp :: nat
  data :: "byte list"

text \<open>
  The fields of the class: \<open>_options\<close>, \<open>_cryptoKeyRing\<close> (an array with holes, a hole
  being \<open>None\<close>), \<open>_currentKeyIndex\<close> and the map \<open>_sendCounts\<close>.
\<close>

record 'k E2EEcontext =
  options :: string
  cryptoKeyRing :: "'k option list"
  currentKeyIndex :: int
  sendCounts :: "nat \<rightharpoonup> nat"

text \<open>What one call of a transform did to its controller and to the logger.\<close>

record effects =
  enqueued :: "chunk list"
  logged :: "logEntry list"

definition constructor :: "string \<Rightarrow> 'k E2EEcontext" where
  "constructor opts =
     \<lparr>options = opts, cryptoKeyRing = replicate keyRingSize None,
      currentKeyIndex = - 1, sendCounts = Map.empty\<rparr>"

section \<open>The JavaScript operations the transforms use\<close>

text \<open>The remainder \<open>a % b\<close> for \<open>b \<noteq> 0\<close>: its sign is the sign of the dividend.\<close>

definition jsRemainder :: "int \<Rightarrow> int \<Rightarrow> int" where
  "jsRemainder a b = sgn a * (\<bar>a\<bar> mod \<bar>b\<bar>)"

text \<open>Reading \<open>array[i]\<close>: \<open>undefined\<close> at a hole and outside the array.\<close>

definition arrayGet :: "'a option list \<Rightarrow> int \<Rightarrow> 'a option" where
  "arrayGet arr i = (if 0 \<le> i \<and> i < int (length arr) then arr ! nat i else None)"

text \<open>
  \<open>new Uint8Array(buffer, byteOffset, length)\<close>: the bytes the view shows, or the
  RangeError of an offset or a length outside the buffer.
\<close>

definition newUint8Array :: "byte list \<Rightarrow> int \<Rightarrow> int option \<Rightarrow> error + byte list" where
  "newUint8Array buffer byteOffset len =
     (if byteOffset < 0 \<or> int (length buffer) < byteOffset then Inl RangeError
      else case len of
        None \<Rightarrow> Inr (drop (nat byteOffset) buffer)
      | Some l \<Rightarrow>
          if l < 0 \<or> int (length buffer) < byteOffset + l then Inl RangeError
          else Inr (take (nat l) (drop (nat byteOffset) buffer)))"

text \<open>\<open>target.set(source, offset)\<close> on typed arrays: RangeError when the source does not fit.\<close>

definition typedArraySet :: "byte list \<Rightarrow> byte list \<Rightarrow> nat \<Rightarrow> error + byte list" where
  "typedArraySet target source offset =
     (if length target < offset + length source then Inl RangeError
      else Inr (take offset target @ source @ drop (offset + length source) target))"

text \<open>
  \<open>DataView.setUint32(byteOffset, v)\<close>, big-endian, of a non-negative integer \<open>v\<close>
  (converted with ToUint32). The transforms call it at the offsets 0, 4 and 8 of a
  12-byte buffer only, where it cannot throw.
\<close>

definition toUint32 :: "nat \<Rightarrow> nat" where
  "toUint32 v = v mod 2 ^ 32"

definition bigEndian32 :: "nat \<Rightarrow> byte list" where
  "bigEndian32 n =
     [of_nat (n div 2 ^ 24 mod 256), of_nat (n div 2 ^ 16 mod 256),
      of_nat (n div 2 ^ 8 mod 256), of_nat (n mod 256)]"

definition setUint32 :: "byte list \<Rightarrow> nat \<Rightarrow> nat \<Rightarrow> byte list" where
  "setUint32 view byteOffset v =
     take byteOffset view @ bigEndian32 (toUint32 v) @ drop (byteOffset + 4) view"

text \<open>
  \<open>unencryptedBytes[chunk.type]\<close> and the arithmetic on it. The entry is \<open>undefined\<close>
  for a type that is no key of the table, \<open>undefined + n\<close> is NaN, and both are
  \<open>None\<close> here; as a buffer length, a byte offset or the offset of \<open>set\<close> either one
  counts as 0, and as the length of a view \<open>undefined\<close> means the rest of the buffer.
\<close>

definition unencryptedBytesOf :: "chunk \<Rightarrow> nat option" where
  "unencryptedBytesOf chunk = map_option unencryptedBytes (type chunk)"

definition numberPlus :: "nat option \<Rightarrow> nat \<Rightarrow> nat option" where
  "numberPlus x n = (case x of None \<Rightarrow> None | Some m \<Rightarrow> Some (m + n))"

definition toIndex :: "nat option \<Rightarrow> nat" where
  "toIndex x = (case x of None \<Rightarrow> 0 | Some n \<Rightarrow> n)"

text \<open>
  A property key of a typed array. \<open>Number.prototype.toString\<close> of a non-negative integer
  is \<open>decimal\<close>; a string is an element index only when it is the decimal form of a
  number, and every other key names an ordinary property of the object, whose
  assignment leaves the bytes alone. An assignment at an index outside the array is
  ignored.
\<close>

fun decimal :: "nat \<Rightarrow> string" where
  "decimal n =
     (if n < 10 then [char_of (48 + n)]
      else decimal (n div 10) @ [char_of (48 + n mod 10)])"

declare decimal.simps [simp del]

definition digitValue :: "char \<Rightarrow> nat option" where
  "digitValue c =
     (if 48 \<le> (of_char c :: nat) \<and> (of_char c :: nat) \<le> 57 then Some (of_char c - 48) else None)"

fun parseDecimal :: "nat \<Rightarrow> string \<Rightarrow> nat option" where
  "parseDecimal acc [] = Some acc"
| "parseDecimal acc (c # cs) =
     (case digitValue c of None \<Rightarrow> None | Some d \<Rightarrow> parseDecimal (10 * acc + d) cs)"

definition arrayIndexOf :: "string \<Rightarrow> nat option" where
  "arrayIndexOf s =
     (if s = [] then None
      else case parseDecimal 0 s of
        None \<Rightarrow> None
      | Some n \<Rightarrow> if decimal n = s then Some n else None)"

definition typedArrayPut :: "byte list \<Rightarrow> string \<Rightarrow> byte \<Rightarrow> byte list" where
  "typedArrayPut arr propertyKey v =
     (case arrayIndexOf propertyKey of None \<Rightarrow> arr | Some i \<Rightarrow> arr[i := v])"

text \<open>
  \<open>unencryptedBytes + n + m\<close> with the table itself as left operand: the object becomes
  the string \<open>[object Object]\<close> and both numbers are appended in decimal.
\<close>

definition objectPlus :: "nat \<Rightarrow> nat \<Rightarrow> string" where
  "objectPlus n m = ''[object Object]'' @ decimal n @ decimal m"

section \<open>The encoder transform\<close>

text \<open>
  \<open>_encodeFunction(chunk, controller)\<close>. The parameter \<open>encrypt\<close> is
  \<open>crypto.subtle.encrypt\<close> with AES-GCM (key, iv, plaintext), \<open>None\<close> when its promise
  is rejected; \<open>random\<close> is the value of \<open>Math.floor(Math.random() * 0xFFFF)\<close>, read only
  when the source has no counter yet. The result is what the call threw or did, and
  the context it left. The stream waits for the returned promise before it passes the
  next chunk, so one call is one step. An error thrown in the callback below rejects
  that promise and puts the stream in its error state as an error thrown by the call
  itself does; neither reaches the logger, and both are \<open>Inl\<close>.

  \<open>assembleEncoded\<close> is the callback that runs when the encryption is fulfilled: it
  builds the new buffer, replaces \<open>chunk.data\<close> and enqueues the chunk. Its last
  assignment, \<open>newUint8[unencryptedBytes + cipherText.byteLength + ivLength] = keyIndex\<close>,
  names the table and not the table's entry for the frame type.
\<close>

definition assembleEncoded ::
  "chunk \<Rightarrow> byte list \<Rightarrow> byte list \<Rightarrow> int \<Rightarrow> error + effects" where
  "assembleEncoded chunk cipherText iv keyIndex =
     (let p = unencryptedBytesOf chunk;
          newData =
            replicate
              (toIndex (numberPlus (numberPlus (numberPlus p (length cipherText)) (length iv)) 1))
              (0 :: byte)
      in case newUint8Array (data chunk) 0 (map_option int p) of
           Inl e \<Rightarrow> Inl e
         | Inr firstBytes \<Rightarrow>
        (case typedArraySet newData firstBytes 0 of
           Inl e \<Rightarrow> Inl e
         | Inr withFirst \<Rightarrow>
        (case typedArraySet withFirst cipherText (toIndex p) of
           Inl e \<Rightarrow> Inl e
         | Inr withCipher \<Rightarrow>
        (case typedArraySet withCipher iv (toIndex (numberPlus p (length cipherText))) of
           Inl e \<Rightarrow> Inl e
         | Inr withIv \<Rightarrow>
             Inr \<lparr>enqueued =
                    [chunk\<lparr>data :=
                       typedArrayPut withIv (objectPlus (length cipherText) ivLength)
                         (word_of_int keyIndex)\<rparr>],
                  logged = []\<rparr>))))"

text \<open>
  The send count the encoder reads for a source: the entry of \<open>_sendCounts\<close>, which is
  first set to the random number when the source has none.
\<close>

definition countFor :: "'k E2EEcontext \<Rightarrow> nat \<Rightarrow> nat \<Rightarrow> nat" where
  "countFor ctx random ssrc = (case sendCounts ctx ssrc of None \<Rightarrow> random | Some c \<Rightarrow> c)"

text \<open>The IV: source, timestamp and \<open>sendCount % 0xFFFF\<close>, four bytes each.\<close>

definition makeIv :: "chunk \<Rightarrow> nat \<Rightarrow> byte list" where
  "makeIv chunk sendCount =
     setUint32
       (setUint32 (setUint32 (replicate ivLength 0) 0 (synchronizationSource chunk))
          4 (timestamp chunk))
       8 (sendCount mod 0xFFFF)"

definition encodeFunction ::
  "('k \<Rightarrow> byte list \<Rightarrow> byte list \<Rightarrow> byte list option) \<Rightarrow> nat \<Rightarrow>
   'k E2EEcontext \<Rightarrow> chunk \<Rightarrow> (error + effects) \<times> 'k E2EEcontext" where
  "encodeFunction encrypt random ctx chunk =
     (let keyIndex = jsRemainder (currentKeyIndex ctx) (int (length (cryptoKeyRing ctx)))
      in case arrayGet (cryptoKeyRing ctx) keyIndex of
           None \<Rightarrow>
             (Inr \<lparr>enqueued = [],
                   logged = [LogText ''Could not encrypt frame as there is no key.'']\<rparr>,
              ctx)
         | Some cryptoKey \<Rightarrow>
             (let ssrc = synchronizationSource chunk;
                  sendCount = countFor ctx random ssrc;
                  iv = makeIv chunk sendCount;
                  ctx' = ctx\<lparr>sendCounts := (sendCounts ctx)(ssrc \<mapsto> sendCount + 1)\<rparr>
              in case newUint8Array (data chunk)
                        (int (toIndex (unencryptedBytesOf chunk))) None of
                   Inl e \<Rightarrow> (Inl e, ctx')
                 | Inr plainText \<Rightarrow>
                     (case encrypt cryptoKey iv plainText of
                        None \<Rightarrow> (Inr \<lparr>enqueued = [], logged = [LogRejection]\<rparr>, ctx')
                      | Some cipherText \<Rightarrow>
                          (assembleEncoded chunk cipherText iv keyIndex, ctx'))))"

section \<open>The decoder transform\<close>

text \<open>
  \<open>_decodeFunction(chunk, controller)\<close>, with \<open>decrypt\<close> for \<open>crypto.subtle.decrypt\<close>
  (key, iv, ciphertext). It reads the context and never writes it. \<open>assembleDecoded\<close>
  is the callback that runs when the decryption is fulfilled; its buffer has
  \<open>10 + plainText.byteLength\<close> bytes for either frame type.
\<close>

definition assembleDecoded :: "chunk \<Rightarrow> frameType \<Rightarrow> byte list \<Rightarrow> error + effects" where
  "assembleDecoded chunk chunkType plainText =
     (let newData = replicate (10 + length plainText) (0 :: byte)
      in case newUint8Array (data chunk) 0 (Some (int (unencryptedBytes chunkType))) of
           Inl e \<Rightarrow> Inl e
         | Inr firstBytes \<Rightarrow>
        (case typedArraySet newData firstBytes 0 of
           Inl e \<Rightarrow> Inl e
         | Inr withFirst \<Rightarrow>
        (case typedArraySet withFirst plainText (unencryptedBytes chunkType) of
           Inl e \<Rightarrow> Inl e
         | Inr withPlain \<Rightarrow>
             Inr \<lparr>enqueued = [chunk\<lparr>data := withPlain\<rparr>], logged = []\<rparr>)))"

text \<open>The frame type as the decoder reads it from the lowest bit of the first byte.\<close>

definition chunkTypeOf :: "byte list \<Rightarrow> frameType" where
  "chunkTypeOf bytes = (if (bytes ! 0) AND 1 = 0 then Key else Delta)"

text \<open>
  The key the decoder finds: slot \<open>data[byteLength - 1]\<close> of the ring, nothing when the
  payload is empty (the index is \<open>undefined\<close> then).
\<close>

definition lastByteKey :: "'k E2EEcontext \<Rightarrow> byte list \<Rightarrow> 'k option" where
  "lastByteKey ctx bytes =
     (if bytes = [] then None else arrayGet (cryptoKeyRing ctx) (uint (last bytes)))"

definition decodeFunction ::
  "('k \<Rightarrow> byte list \<Rightarrow> byte list \<Rightarrow> byte list option) \<Rightarrow>
   'k E2EEcontext \<Rightarrow> chunk \<Rightarrow> error + effects" where
  "decodeFunction decrypt ctx chunk =
     (let bytes = data chunk; byteLength = int (length bytes)
      in case lastByteKey ctx bytes of
           None \<Rightarrow> Inr \<lparr>enqueued = [chunk], logged = []\<rparr>
         | Some cryptoKey \<Rightarrow>
             (let chunkType = chunkTypeOf bytes
              in case newUint8Array bytes (byteLength - int ivLength - 1)
                        (Some (int ivLength)) of
                   Inl e \<Rightarrow> Inl e
                 | Inr iv \<Rightarrow>
                (case newUint8Array bytes (int (unencryptedBytes chunkType))
                        (Some (byteLength - (int (unencryptedBytes chunkType)
                                             + int ivLength + 1))) of
                   Inl e \<Rightarrow> Inl e
                 | Inr cipherText \<Rightarrow>
                     (case decrypt cryptoKey iv cipherText of
                        None \<Rightarrow> Inr \<lparr>enqueued = [], logged = [LogRejection]\<rparr>
                      | Some plainText \<Rightarrow> assembleDecoded chunk chunkType plainText))))"

section \<open>Setting a key\<close>

text \<open>
  \<open>setKey(value)\<close> awaits \<open>this._deriveKey(value)\<close> and ends there, at its \<open>TODO\<close>.
  The derivation is a parameter (the class of this version declares no \<open>_deriveKey\<close>,
  so the call throws a TypeError; the first version returns the secret itself); a failed
  derivation rejects the promise.
\<close>

definition setKey ::
  "(string \<Rightarrow> error + 'k) \<Rightarrow> string \<Rightarrow> 'k E2EEcontext \<Rightarrow> (error + unit) \<times> 'k E2EEcontext" where
  "setKey deriveKey secret ctx =
     (case deriveKey secret of
        Inl e \<Rightarrow> (Inl e, ctx)
      | Inr cryptoKey \<Rightarrow> (Inr (), ctx))"

section \<open>Runs of the sender pipeline and what they put on the wire\<close>

text \<open>
  \<open>handleSender\<close> pipes the frames through a TransformStream whose transform is the
  encoder: the frames are transformed one at a time, in order, each with the context the
  last one left, and a transform that throws puts the stream in its error state, after
  which no frame is transformed. Each frame comes with the random number drawn for it.
\<close>

fun encodeFrames ::
  "('k \<Rightarrow> byte list \<Rightarrow> byte list \<Rightarrow> byte list option) \<Rightarrow> 'k E2EEcontext \<Rightarrow>
   (nat \<times> chunk) list \<Rightarrow> chunk list \<times> 'k E2EEcontext" where
  "encodeFrames encrypt ctx [] = ([], ctx)"
| "encodeFrames encrypt ctx (frame # frames) =
     (case encodeFunction encrypt (fst frame) ctx (snd frame) of
        (Inl e, ctx') \<Rightarrow> ([], ctx')
      | (Inr eff, ctx') \<Rightarrow>
          (enqueued eff @ fst (encodeFrames encrypt ctx' frames),
           snd (encodeFrames encrypt ctx' frames)))"

text \<open>The frames a call enqueued: none when it threw.\<close>

definition emitted :: "error + effects \<Rightarrow> chunk list" where
  "emitted r = (case r of Inl e \<Rightarrow> [] | Inr eff \<Rightarrow> enqueued eff)"

text \<open>
  The fields of an encoded frame as the decoder reads them: the key index is the last
  byte and the IV the \<open>ivLength\<close> bytes before it; bytes 8 to 11 of the IV hold the
  send count.
\<close>

definition nonceOf :: "chunk \<Rightarrow> byte list" where
  "nonceOf c = take ivLength (drop (length (data c) - ivLength - 1) (data c))"

definition counterBytes :: "chunk \<Rightarrow> byte list" where
  "counterBytes c = drop 8 (nonceOf c)"

definition keyIndexByte :: "chunk \<Rightarrow> byte list" where
  "keyIndexByte c = drop (length (data c) - 1) (data c)"

text \<open>
  A frame sent and received: the encoder's output handed to the decoder of a context
  with the same key ring (the decoder reads nothing else of the context).
\<close>

definition encodeThenDecode ::
  "('k \<Rightarrow> byte list \<Rightarrow> byte list \<Rightarrow> byte list option) \<Rightarrow>
   ('k \<Rightarrow> byte list \<Rightarrow> byte list \<Rightarrow> byte list option) \<Rightarrow>
   nat \<Rightarrow> 'k E2EEcontext \<Rightarrow> chunk \<Rightarrow> error + effects" where
  "encodeThenDecode encrypt decrypt random ctx chunk =
     (case encodeFunction encrypt random ctx chunk of
        (Inl e, ctx') \<Rightarrow> Inl e
      | (Inr eff, ctx') \<Rightarrow>
          (case enqueued eff of
             [] \<Rightarrow> Inr eff
           | sent # _ \<Rightarrow> decodeFunction decrypt ctx' sent))"

section \<open>A stand-in cipher for running the model\<close>

text \<open>
  AES-GCM itself is WebCrypto's, not this repository's: the transforms take it as a
  parameter. To run them on concrete frames the parameter is instantiated with a toy
  authenticated cipher over a one-byte key: every byte is shifted by the key and a
  16-byte tag that depends on key, IV and plaintext is appended; decryption checks the
  tag.
\<close>

definition shiftTag :: "byte \<Rightarrow> byte list \<Rightarrow> byte list \<Rightarrow> byte list" where
  "shiftTag k iv bytes = replicate 16 (foldr (+) (iv @ bytes) k)"

definition shiftEncrypt :: "byte \<Rightarrow> byte list \<Rightarrow> byte list \<Rightarrow> byte list option" where
  "shiftEncrypt k iv plainText = Some (map (\<lambda>b. b + k) plainText @ shiftTag k iv plainText)"

definition shiftDecrypt :: "byte \<Rightarrow> byte list \<Rightarrow> byte list \<Rightarrow> byte list option" where
  "shiftDecrypt k iv cipherText =
     (if length cipherText < 16 then None
      else let plainText = map (\<lambda>b. b - k) (take (length cipherText - 16) cipherText)
           in if drop (length cipherText - 16) cipherText = shiftTag k iv plainText
              then Some plainText else None)"

text \<open>Contexts with one key installed, in slot 0 and in slot 1, and sample frames.\<close>

definition contextSlot0 :: "byte E2EEcontext" where
  "contextSlot0 =
     \<lparr>options = ''salt'',
      cryptoKeyRing = [Some 7, None, None, None, None, None, None, None],
      currentKeyIndex = 0, sendCounts = Map.empty\<rparr>"

definition contextSlot1 :: "byte E2EEcontext" where
  "contextSlot1 =
     \<lparr>options = ''salt'',
      cryptoKeyRing = [None, Some 7, None, None, None, None, None, None],
      currentKeyIndex = 1, sendCounts = Map.empty\<rparr>"

definition deltaFrame :: chunk where
  "deltaFrame =
     \<lparr>type = Some Delta, synchronizationSource = 42, timestamp = 1000,
      data = [1, 2, 3, 4, 5]\<rparr>"

definition keyFrame :: chunk where
  "keyFrame =
     \<lparr>type = Some Key, synchronizationSource = 42, timestamp = 1000,
      data = [0, 1, 2, 3, 4, 5, 6, 7, 8, 9, 10, 11]\<rparr>"

text \<open>
  What the encoder makes of \<open>deltaFrame\<close> under key 7 with send count 5: three clear
  bytes, two shifted bytes and the tag, the IV, and the last byte.
\<close>

definition sentDeltaFrame :: chunk where
  "sentDeltaFrame =
     deltaFrame\<lparr>data :=
       [1, 2, 3,
        11, 12, 42, 42, 42, 42, 42, 42, 42, 42, 42, 42, 42, 42, 42, 42, 42, 42,
        0, 0, 0, 42, 0, 0, 3, 232, 0, 0, 0, 5,
        0]\<rparr>"

text \<open>The same for \<open>keyFrame\<close>: ten clear bytes, then as before.\<close>

definition sentKeyFrame :: chunk where
  "sentKeyFrame =
     keyFrame\<lparr>data :=
       [0, 1, 2, 3, 4, 5, 6, 7, 8, 9,
        17, 18, 54, 54, 54, 54, 54, 54, 54, 54, 54, 54, 54, 54, 54, 54, 54, 54,
        0, 0, 0, 42, 0, 0, 3, 232, 0, 0, 0, 5,
        0]\<rparr>"

definition contextCount65535 :: "byte E2EEcontext" where
  "contextCount65535 = contextSlot0\<lparr>sendCounts := [42 \<mapsto> 65535]\<rparr>"

definition shortFrame :: chunk where
  "shortFrame =
     \<lparr>type = Some Delta, synchronizationSource = 42, timestamp = 1000, data = [1, 0]\<rparr>"


text \<open>A context whose table of send counts has entries for two sources.\<close>

definition contextTwoSources :: "byte E2EEcontext" where
  "contextTwoSources = contextSlot0\<lparr>sendCounts := [42 \<mapsto> 9, 43 \<mapsto> 9]\<rparr>"

section \<open>What the operations compute\<close>

lemma arrayIndexOf_objectPlus: "arrayIndexOf (objectPlus n m) = None"
  by (simp add: arrayIndexOf_def objectPlus_def digitValue_def)

lemma typedArrayPut_objectPlus: "typedArrayPut arr (objectPlus n m) v = arr"
  by (simp add: typedArrayPut_def arrayIndexOf_objectPlus)

lemma length_bigEndian32: "length (bigEndian32 n) = 4"
  by (simp add: bigEndian32_def)

lemma makeIv_eq:
  "makeIv chunk sendCount =
     bigEndian32 (toUint32 (synchronizationSource chunk)) @ bigEndian32 (toUint32 (timestamp chunk))
     @ bigEndian32 (toUint32 (sendCount mod 0xFFFF))"
  by (simp add: makeIv_def setUint32_def ivLength_def length_bigEndian32)

lemma length_makeIv: "length (makeIv chunk sendCount) = 12"
  by (simp add: makeIv_eq length_bigEndian32)

lemma assembleEncoded_eq:
  assumes "type chunk = Some t"
    and "unencryptedBytes t \<le> length (data chunk)" and "length iv = 12"
  shows "assembleEncoded chunk cipherText iv keyIndex =
           Inr \<lparr>enqueued = [chunk\<lparr>data := take (unencryptedBytes t) (data chunk)
                                          @ cipherText @ iv @ [0]\<rparr>],
                logged = []\<rparr>"
  using assms
  by (simp add: assembleEncoded_def Let_def newUint8Array_def typedArraySet_def
      unencryptedBytesOf_def numberPlus_def toIndex_def
      typedArrayPut_objectPlus replicate_add [symmetric] min_def)

lemma assembleEncoded_untyped:
  assumes "type chunk = None" and "length iv = 12"
  shows "assembleEncoded chunk cipherText iv keyIndex = Inl RangeError"
proof -
  have iv: "iv \<noteq> []"
    using assms(2) by auto
  show ?thesis
  proof (cases "data chunk = [] \<and> cipherText = []")
    case True
    then show ?thesis
      using assms(1) iv
      by (simp add: assembleEncoded_def Let_def newUint8Array_def typedArraySet_def
          unencryptedBytesOf_def numberPlus_def toIndex_def)
  next
    case False
    then show ?thesis
      using assms(1)
      by (auto simp: assembleEncoded_def Let_def newUint8Array_def typedArraySet_def
          unencryptedBytesOf_def numberPlus_def toIndex_def)
  qed
qed

lemma encodeFunction_no_key:
  assumes "arrayGet (cryptoKeyRing ctx)
             (jsRemainder (currentKeyIndex ctx) (int (length (cryptoKeyRing ctx)))) = None"
  shows "encodeFunction encrypt random ctx chunk =
           (Inr \<lparr>enqueued = [],
                 logged = [LogText ''Could not encrypt frame as there is no key.'']\<rparr>, ctx)"
  using assms by (simp add: encodeFunction_def)

lemma encodeFunction_active:
  assumes "arrayGet (cryptoKeyRing ctx)
             (jsRemainder (currentKeyIndex ctx) (int (length (cryptoKeyRing ctx)))) = Some cryptoKey"
  shows "encodeFunction encrypt random ctx chunk =
     (case type chunk of
        None \<Rightarrow>
          (case encrypt cryptoKey
                  (makeIv chunk (countFor ctx random (synchronizationSource chunk))) (data chunk) of
             None \<Rightarrow> Inr \<lparr>enqueued = [], logged = [LogRejection]\<rparr>
           | Some cipherText \<Rightarrow> Inl RangeError)
      | Some t \<Rightarrow>
          if length (data chunk) < unencryptedBytes t then Inl RangeError
          else case encrypt cryptoKey
                      (makeIv chunk (countFor ctx random (synchronizationSource chunk)))
                      (drop (unencryptedBytes t) (data chunk)) of
             None \<Rightarrow> Inr \<lparr>enqueued = [], logged = [LogRejection]\<rparr>
           | Some cipherText \<Rightarrow>
               Inr \<lparr>enqueued =
                      [chunk\<lparr>data := take (unencryptedBytes t) (data chunk) @ cipherText
                               @ makeIv chunk (countFor ctx random (synchronizationSource chunk)) @ [0]\<rparr>],
                    logged = []\<rparr>,
      ctx\<lparr>sendCounts := (sendCounts ctx)(synchronizationSource chunk \<mapsto>
             countFor ctx random (synchronizationSource chunk) + 1)\<rparr>)"
proof (cases "type chunk")
  case None
  then show ?thesis
    using assms
    by (simp add: encodeFunction_def Let_def newUint8Array_def assembleEncoded_untyped
        length_makeIv unencryptedBytesOf_def toIndex_def split: option.splits)
next
  case (Some t)
  then show ?thesis
    using assms
    by (simp add: encodeFunction_def Let_def newUint8Array_def assembleEncoded_eq length_makeIv
        unencryptedBytesOf_def toIndex_def split: option.splits)
qed

lemma newUint8Array_negative: "off < 0 \<Longrightarrow> newUint8Array buf off len = Inl RangeError"
  by (simp add: newUint8Array_def)

lemma newUint8Array_negative_length:
  "l < 0 \<Longrightarrow> newUint8Array buf off (Some l) = Inl RangeError"
  by (simp add: newUint8Array_def)

lemma assembleDecoded_eq:
  assumes "unencryptedBytes chunkType \<le> length (data chunk)"
  shows "assembleDecoded chunk chunkType plainText =
           Inr \<lparr>enqueued = [chunk\<lparr>data := take (unencryptedBytes chunkType) (data chunk)
                                          @ plainText @ replicate (10 - unencryptedBytes chunkType) 0\<rparr>],
                logged = []\<rparr>"
  using assms
  by (cases chunkType)
     (simp_all add: assembleDecoded_def Let_def newUint8Array_def typedArraySet_def min_def)

lemma decodeFunction_keyed:
  assumes "lastByteKey ctx (data chunk) = Some cryptoKey"
  shows "decodeFunction decrypt ctx chunk =
     (if length (data chunk) < unencryptedBytes (chunkTypeOf (data chunk)) + 13 then Inl RangeError
      else case decrypt cryptoKey (take 12 (drop (length (data chunk) - 13) (data chunk)))
                  (take (length (data chunk) - (unencryptedBytes (chunkTypeOf (data chunk)) + 13))
                     (drop (unencryptedBytes (chunkTypeOf (data chunk))) (data chunk))) of
             None \<Rightarrow> Inr \<lparr>enqueued = [], logged = [LogRejection]\<rparr>
           | Some plainText \<Rightarrow>
               Inr \<lparr>enqueued =
                      [chunk\<lparr>data := take (unencryptedBytes (chunkTypeOf (data chunk))) (data chunk)
                               @ plainText
                               @ replicate (10 - unencryptedBytes (chunkTypeOf (data chunk))) 0\<rparr>],
                    logged = []\<rparr>)"
proof -
  define n where "n = length (data chunk)"
  define p where "p = unencryptedBytes (chunkTypeOf (data chunk))"
  let ?ivCall = "newUint8Array (data chunk) (int (length (data chunk)) - int ivLength - 1)
                   (Some (int ivLength))"
  let ?ctCall = "newUint8Array (data chunk) (int (unencryptedBytes (chunkTypeOf (data chunk))))
                   (Some (int (length (data chunk))
                          - (int (unencryptedBytes (chunkTypeOf (data chunk))) + int ivLength + 1)))"
  consider (tiny) "n < 13" | (short) "13 \<le> n" "n < p + 13" | (long) "p + 13 \<le> n"
    by linarith
  then show ?thesis
  proof cases
    case tiny
    then have iv: "?ivCall = Inl RangeError"
      by (simp add: newUint8Array_negative n_def ivLength_def)
    show ?thesis
      unfolding decodeFunction_def Let_def iv
      using assms tiny by (simp add: n_def)
  next
    case short
    have iv: "?ivCall = Inr (take 12 (drop (n - 13) (data chunk)))"
      using short(1) by (simp add: newUint8Array_def ivLength_def n_def nat_diff_distrib)
    have ct: "?ctCall = Inl RangeError"
      using short(2)
      by (intro newUint8Array_negative_length) (simp add: n_def p_def ivLength_def)
    show ?thesis
      unfolding decodeFunction_def Let_def iv ct
      using assms short by (simp add: n_def p_def)
  next
    case long
    have iv: "?ivCall = Inr (take 12 (drop (n - 13) (data chunk)))"
      using long by (simp add: newUint8Array_def ivLength_def n_def nat_diff_distrib)
    have "nat (int n - (int p + 13)) = n - (p + 13)"
      by linarith
    then have ct: "?ctCall = Inr (take (n - (p + 13)) (drop p (data chunk)))"
      using long by (simp add: newUint8Array_def ivLength_def n_def p_def add.commute)
    have "p \<le> length (data chunk)"
      using long by (simp add: n_def)
    then have asm: "assembleDecoded chunk (chunkTypeOf (data chunk)) plainText =
        Inr \<lparr>enqueued = [chunk\<lparr>data := take p (data chunk) @ plainText @ replicate (10 - p) 0\<rparr>],
             logged = []\<rparr>" for plainText
      unfolding p_def by (rule assembleDecoded_eq)
    show ?thesis
      unfolding decodeFunction_def Let_def iv ct asm
      using assms long unfolding n_def p_def by simp
  qed
qed

lemma unencryptedBytes_bounds: "3 \<le> unencryptedBytes t \<and> unencryptedBytes t \<le> 10"
  by (cases t) simp_all

lemma nonceOf_encoded:
  assumes "length iv = 12"
  shows "nonceOf (chunk\<lparr>data := firstBytes @ cipherText @ iv @ [b]\<rparr>) = iv"
  using assms by (simp add: nonceOf_def ivLength_def)

lemma keyIndexByte_encoded:
  "keyIndexByte (chunk\<lparr>data := firstBytes @ cipherText @ iv @ [b]\<rparr>) = [b]"
  by (simp add: keyIndexByte_def)

lemma emitted_encodeFunction:
  assumes "sent \<in> set (emitted (fst (encodeFunction encrypt random ctx chunk)))"
  shows "\<exists>cryptoKey cipherText t.
           arrayGet (cryptoKeyRing ctx)
             (jsRemainder (currentKeyIndex ctx) (int (length (cryptoKeyRing ctx)))) = Some cryptoKey \<and>
           type chunk = Some t \<and>
           unencryptedBytes t \<le> length (data chunk) \<and>
           encrypt cryptoKey (makeIv chunk (countFor ctx random (synchronizationSource chunk)))
             (drop (unencryptedBytes t) (data chunk)) = Some cipherText \<and>
           sent = chunk\<lparr>data := take (unencryptedBytes t) (data chunk) @ cipherText
                    @ makeIv chunk (countFor ctx random (synchronizationSource chunk)) @ [0]\<rparr>"
proof (cases "arrayGet (cryptoKeyRing ctx)
                (jsRemainder (currentKeyIndex ctx) (int (length (cryptoKeyRing ctx))))")
  case None
  with assms show ?thesis
    by (simp add: encodeFunction_no_key emitted_def)
next
  case (Some cryptoKey)
  with assms show ?thesis
    by (simp add: encodeFunction_active emitted_def split: if_splits option.splits)
qed

lemma encoded_layout:
  assumes "sent \<in> set (emitted (fst (encodeFunction encrypt random ctx chunk)))"
  shows "\<exists>cipherText t.
           type chunk = Some t \<and>
           data sent = take (unencryptedBytes t) (data chunk) @ cipherText
                         @ makeIv chunk (countFor ctx random (synchronizationSource chunk)) @ [0] \<and>
           length (data sent) = unencryptedBytes t + length cipherText + 13"
  using emitted_encodeFunction [OF assms] by (auto simp: length_makeIv)

lemma encodeFunction_step:
  assumes "arrayGet (cryptoKeyRing ctx)
             (jsRemainder (currentKeyIndex ctx) (int (length (cryptoKeyRing ctx)))) = Some cryptoKey"
  shows "\<exists>r. encodeFunction encrypt random ctx chunk =
               (r, ctx\<lparr>sendCounts := (sendCounts ctx)(synchronizationSource chunk \<mapsto>
                        countFor ctx random (synchronizationSource chunk) + 1)\<rparr>) \<and>
             (emitted r = [] \<or>
              (\<exists>sent. r = Inr \<lparr>enqueued = [sent], logged = []\<rparr> \<and>
                 nonceOf sent = makeIv chunk (countFor ctx random (synchronizationSource chunk))))"
  by (simp add: encodeFunction_active [OF assms] emitted_def nonceOf_encoded length_makeIv
      split: option.splits)

lemma counterBytes_makeIv:
  assumes "nonceOf sent = makeIv chunk c"
  shows "counterBytes sent = bigEndian32 (c mod 0xFFFF)"
proof -
  have "c mod 0xFFFF < 2 ^ 32"
    by (rule less_trans [of _ "0xFFFF"]) simp_all
  then have "toUint32 (c mod 0xFFFF) = c mod 0xFFFF"
    by (simp add: toUint32_def)
  then show ?thesis
    using assms by (simp add: counterBytes_def makeIv_eq length_bigEndian32)
qed

section \<open>Sample runs\<close>

lemma replicate_16:
  "replicate 16 x = [x, x, x, x, x, x, x, x, x, x, x, x, x, x, x, x]"
  by (simp add: numeral_eq_Suc)

lemma bigEndian32_42: "bigEndian32 42 = [0, 0, 0, 42]"
  by (simp add: bigEndian32_def)

lemma bigEndian32_1000: "bigEndian32 1000 = [0, 0, 3, 232]"
  by (simp add: bigEndian32_def)

lemma deltaFrame_iv: "makeIv deltaFrame 5 = [0, 0, 0, 42, 0, 0, 3, 232, 0, 0, 0, 5]"
  by (simp add: makeIv_eq deltaFrame_def toUint32_def bigEndian32_def)

lemma keyFrame_iv: "makeIv keyFrame 5 = [0, 0, 0, 42, 0, 0, 3, 232, 0, 0, 0, 5]"
  by (simp add: makeIv_eq keyFrame_def toUint32_def bigEndian32_def)

lemma slot0_active:
  "arrayGet (cryptoKeyRing contextSlot0)
     (jsRemainder (currentKeyIndex contextSlot0) (int (length (cryptoKeyRing contextSlot0)))) = Some 7"
  by (simp add: contextSlot0_def jsRemainder_def arrayGet_def)

lemma slot1_active:
  "arrayGet (cryptoKeyRing contextSlot1)
     (jsRemainder (currentKeyIndex contextSlot1) (int (length (cryptoKeyRing contextSlot1)))) = Some 7"
  by (simp add: contextSlot1_def jsRemainder_def arrayGet_def)

lemma count65535_active:
  "arrayGet (cryptoKeyRing contextCount65535)
     (jsRemainder (currentKeyIndex contextCount65535)
        (int (length (cryptoKeyRing contextCount65535)))) = Some 7"
  by (simp add: contextCount65535_def contextSlot0_def jsRemainder_def arrayGet_def)

lemma encode_deltaFrame_slot0:
  "encodeFunction shiftEncrypt 5 contextSlot0 deltaFrame =
     (Inr \<lparr>enqueued = [sentDeltaFrame], logged = []\<rparr>,
      contextSlot0\<lparr>sendCounts := [42 \<mapsto> 6]\<rparr>)"
proof -
  have count: "countFor contextSlot0 5 (synchronizationSource deltaFrame) = 5"
    by (simp add: countFor_def contextSlot0_def)
  have enc: "shiftEncrypt 7 [0, 0, 0, 42, 0, 0, 3, 232, 0, 0, 0, 5] [4, 5]
               = Some ([11, 12] @ replicate 16 42)"
    by (simp add: shiftEncrypt_def shiftTag_def)
  show ?thesis
    unfolding encodeFunction_active [OF slot0_active] count deltaFrame_iv
    using enc by (simp add: deltaFrame_def contextSlot0_def sentDeltaFrame_def replicate_16)
qed

lemma decode_sentDeltaFrame:
  "decodeFunction shiftDecrypt (contextSlot0\<lparr>sendCounts := [42 \<mapsto> 6]\<rparr>) sentDeltaFrame =
   Inr \<lparr>enqueued = [deltaFrame\<lparr>data := [1, 2, 3, 4, 5, 0, 0, 0, 0, 0, 0, 0]\<rparr>], logged = []\<rparr>"
proof -
  let ?ctx = "contextSlot0\<lparr>sendCounts := [42 \<mapsto> 6]\<rparr>"
  have k: "lastByteKey ?ctx (data sentDeltaFrame) = Some 7"
    by (simp add: lastByteKey_def contextSlot0_def arrayGet_def sentDeltaFrame_def)
  have ty: "chunkTypeOf (data sentDeltaFrame) = Delta"
    by (simp add: chunkTypeOf_def and_one_eq sentDeltaFrame_def)
  have dec: "shiftDecrypt 7 [0, 0, 0, 42, 0, 0, 3, 232, 0, 0, 0, 5]
               [11, 12, 42, 42, 42, 42, 42, 42, 42, 42, 42, 42, 42, 42, 42, 42, 42, 42]
             = Some [4, 5]"
    by (simp add: shiftDecrypt_def shiftTag_def replicate_16)
  have seven: "replicate 7 (0 :: byte) = [0, 0, 0, 0, 0, 0, 0]"
    by (simp add: numeral_eq_Suc)
  show ?thesis
    unfolding decodeFunction_keyed [OF k] ty
    using dec by (simp add: sentDeltaFrame_def seven)
qed

section \<open>The round trip through slot 0\<close>

text \<open>
  The encoder never writes the key index, so the decoder always looks in slot 0. When
  the frame's type agrees with its first byte and the cipher inverts itself, the
  decoder returns the clear prefix, the plaintext and \<open>10 - unencryptedBytes[type]\<close>
  zero bytes.
\<close>

lemma encodeThenDecode_slot0:
  fixes ctx :: "'k E2EEcontext" and chunk :: chunk and random :: nat and t :: frameType
  defines "p \<equiv> unencryptedBytes t"
  defines "iv \<equiv> makeIv chunk (countFor ctx random (synchronizationSource chunk))"
  assumes typed: "type chunk = Some t"
    and active: "arrayGet (cryptoKeyRing ctx)
             (jsRemainder (currentKeyIndex ctx) (int (length (cryptoKeyRing ctx)))) = Some sendKey"
    and slot0: "arrayGet (cryptoKeyRing ctx) 0 = Some slotKey"
    and long: "p \<le> length (data chunk)"
    and consistent: "chunkTypeOf (data chunk) = t"
    and enc: "encrypt sendKey iv (drop p (data chunk)) = Some cipherText"
  shows "encodeThenDecode encrypt decrypt random ctx chunk =
     (case decrypt slotKey iv cipherText of
        None \<Rightarrow> Inr \<lparr>enqueued = [], logged = [LogRejection]\<rparr>
      | Some plainText \<Rightarrow>
          Inr \<lparr>enqueued = [chunk\<lparr>data := take p (data chunk) @ plainText @ replicate (10 - p) 0\<rparr>],
               logged = []\<rparr>)"
proof -
  let ?sent = "take p (data chunk) @ cipherText @ iv @ [0]"
  let ?ctx' = "ctx\<lparr>sendCounts := (sendCounts ctx)(synchronizationSource chunk \<mapsto>
                 countFor ctx random (synchronizationSource chunk) + 1)\<rparr>"
  have p3: "3 \<le> p" and p10: "p \<le> 10"
    using unencryptedBytes_bounds [of t] by (simp_all add: p_def)
  have ivLen: "length iv = 12"
    by (simp add: iv_def length_makeIv)
  have encoded: "encodeFunction encrypt random ctx chunk =
      (Inr \<lparr>enqueued = [chunk\<lparr>data := ?sent\<rparr>], logged = []\<rparr>, ?ctx')"
    using long enc
    by (simp add: encodeFunction_active [OF active] typed p_def [symmetric] iv_def [symmetric])
  have len: "length ?sent = p + length cipherText + 13"
    using long by (simp add: ivLen)
  have k: "lastByteKey ?ctx' (data (chunk\<lparr>data := ?sent\<rparr>)) = Some slotKey"
    using slot0 by (simp add: lastByteKey_def)
  have first: "?sent ! 0 = data chunk ! 0"
    using long p3 by (simp add: nth_append)
  have ty: "chunkTypeOf ?sent = t"
    using consistent first by (simp add: chunkTypeOf_def)
  have ivPart: "take 12 (drop (length ?sent - 13) ?sent) = iv"
    using long by (simp add: ivLen)
  have ctPart: "take (length ?sent - (p + 13)) (drop p ?sent) = cipherText"
    using long by (simp add: ivLen)
  have decoded: "decodeFunction decrypt ?ctx' (chunk\<lparr>data := ?sent\<rparr>) =
     (case decrypt slotKey iv cipherText of
        None \<Rightarrow> Inr \<lparr>enqueued = [], logged = [LogRejection]\<rparr>
      | Some plainText \<Rightarrow>
          Inr \<lparr>enqueued = [chunk\<lparr>data := take p (data chunk) @ plainText @ replicate (10 - p) 0\<rparr>],
               logged = []\<rparr>)"
  proof -
    have shape: "data (chunk\<lparr>data := ?sent\<rparr>) = ?sent"
      by simp
    have notShort: "\<not> length ?sent < p + 13"
      using len by simp
    have pre: "take p ?sent = take p (data chunk)"
      using long by simp
    show ?thesis
      unfolding decodeFunction_keyed [OF k] shape ty p_def [symmetric] ivPart ctPart pre
      using notShort by (simp split: option.splits)
  qed
  show ?thesis
    unfolding encodeThenDecode_def encoded
    using decoded by simp
qed

lemma roundtrip_key_frame_slot0:
  assumes "arrayGet (cryptoKeyRing ctx) 0 = Some cryptoKey"
    and "jsRemainder (currentKeyIndex ctx) (int (length (cryptoKeyRing ctx))) = 0"
    and "type chunk = Some Key" and "chunkTypeOf (data chunk) = Key"
    and "10 \<le> length (data chunk)"
    and "\<And>iv plainText. \<exists>cipherText. encrypt cryptoKey iv plainText = Some cipherText"
    and "\<And>iv plainText cipherText.
           encrypt cryptoKey iv plainText = Some cipherText \<Longrightarrow>
           decrypt cryptoKey iv cipherText = Some plainText"
  shows "encodeThenDecode encrypt decrypt random ctx chunk =
           Inr \<lparr>enqueued = [chunk], logged = []\<rparr>"
proof -
  let ?iv = "makeIv chunk (countFor ctx random (synchronizationSource chunk))"
  obtain cipherText where enc: "encrypt cryptoKey ?iv (drop 10 (data chunk)) = Some cipherText"
    using assms(6) by blast
  then have dec: "decrypt cryptoKey ?iv cipherText = Some (drop 10 (data chunk))"
    by (rule assms(7))
  have "encodeThenDecode encrypt decrypt random ctx chunk =
     (case decrypt cryptoKey ?iv cipherText of
        None \<Rightarrow> Inr \<lparr>enqueued = [], logged = [LogRejection]\<rparr>
      | Some plainText \<Rightarrow>
          Inr \<lparr>enqueued = [chunk\<lparr>data := take (unencryptedBytes Key) (data chunk)
                        @ plainText @ replicate (10 - unencryptedBytes Key) 0\<rparr>],
               logged = []\<rparr>)"
    using assms(1-5) enc by (intro encodeThenDecode_slot0) simp_all
  then show ?thesis
    using dec by simp
qed

lemma roundtrip_delta_frame_slot0:
  assumes "arrayGet (cryptoKeyRing ctx) 0 = Some cryptoKey"
    and "jsRemainder (currentKeyIndex ctx) (int (length (cryptoKeyRing ctx))) = 0"
    and "type chunk = Some Delta" and "chunkTypeOf (data chunk) = Delta"
    and "3 \<le> length (data chunk)"
    and "\<And>iv plainText. \<exists>cipherText. encrypt cryptoKey iv plainText = Some cipherText"
    and "\<And>iv plainText cipherText.
           encrypt cryptoKey iv plainText = Some cipherText \<Longrightarrow>
           decrypt cryptoKey iv cipherText = Some plainText"
  shows "encodeThenDecode encrypt decrypt random ctx chunk =
           Inr \<lparr>enqueued = [chunk\<lparr>data := data chunk @ replicate 7 0\<rparr>], logged = []\<rparr>"
proof -
  let ?iv = "makeIv chunk (countFor ctx random (synchronizationSource chunk))"
  obtain cipherText where enc: "encrypt cryptoKey ?iv (drop 3 (data chunk)) = Some cipherText"
    using assms(6) by blast
  then have dec: "decrypt cryptoKey ?iv cipherText = Some (drop 3 (data chunk))"
    by (rule assms(7))
  have "encodeThenDecode encrypt decrypt random ctx chunk =
     (case decrypt cryptoKey ?iv cipherText of
        None \<Rightarrow> Inr \<lparr>enqueued = [], logged = [LogRejection]\<rparr>
      | Some plainText \<Rightarrow>
          Inr \<lparr>enqueued = [chunk\<lparr>data := take (unencryptedBytes Delta) (data chunk)
                        @ plainText @ replicate (10 - unencryptedBytes Delta) 0\<rparr>],
               logged = []\<rparr>)"
    using assms(1-5) enc by (intro encodeThenDecode_slot0) simp_all
  then show ?thesis
    using dec by simp
qed

section \<open>Send counts over a run of frames\<close>

lemma byte_of_nat_inj:
  "x < 256 \<Longrightarrow> y < 256 \<Longrightarrow> (of_nat x :: byte) = of_nat y \<Longrightarrow> x = y"
  by (simp add: word_of_nat_eq_iff take_bit_eq_mod)

lemma bigEndian32_inj:
  assumes "a < 65536" and "b < 65536" and "bigEndian32 a = bigEndian32 b"
  shows "a = b"
proof -
  have hi: "(of_nat (a div 256 mod 256) :: byte) = of_nat (b div 256 mod 256)"
    and lo: "(of_nat (a mod 256) :: byte) = of_nat (b mod 256)"
    using assms(3) by (simp_all add: bigEndian32_def)
  have "a div 256 mod 256 = b div 256 mod 256"
    using hi by (intro byte_of_nat_inj) simp_all
  moreover have "a div 256 < 256" and "b div 256 < 256"
    using assms(1,2) by (simp_all add: less_mult_imp_div_less)
  ultimately have high: "a div 256 = b div 256"
    by simp
  have low: "a mod 256 = b mod 256"
    using lo by (intro byte_of_nat_inj) simp_all
  have "a = 256 * (a div 256) + a mod 256" and "b = 256 * (b div 256) + b mod 256"
    by simp_all
  with high low show ?thesis
    by metis
qed

lemma counter_mod_distinct:
  assumes "i < j" and "j < 65535"
  shows "(c + i) mod 65535 \<noteq> (c + j) mod (65535 :: nat)"
proof
  assume "(c + i) mod 65535 = (c + j) mod 65535"
  then have "(c + j) mod 65535 = (c + i) mod 65535"
    by simp
  moreover have "c + i \<le> c + j"
    using assms(1) by simp
  ultimately have "65535 dvd (c + j) - (c + i)"
    by (simp add: mod_eq_dvd_iff_nat)
  then have "(65535 :: nat) dvd j - i"
    by simp
  moreover have "0 < j - i" and "j - i < 65535"
    using assms by simp_all
  ultimately show False
    using nat_dvd_not_less by blast
qed

lemma counter_bytes_inj:
  assumes "i < 65535" and "j < 65535"
    and "bigEndian32 ((c + i) mod 0xFFFF) = bigEndian32 ((c + j) mod 0xFFFF)"
  shows "i = j"
proof -
  have "(c + i) mod 0xFFFF < (65536 :: nat)" and "(c + j) mod 0xFFFF < (65536 :: nat)"
    by (rule less_trans [of _ "0xFFFF"]; simp)+
  then have eq: "(c + i) mod 65535 = (c + j) mod 65535"
    using assms(3) bigEndian32_inj by simp
  show ?thesis
  proof (rule ccontr)
    assume "i \<noteq> j"
    then consider "i < j" | "j < i"
      by linarith
    then show False
      using counter_mod_distinct [of i j c] counter_mod_distinct [of j i c] assms(1,2) eq
      by cases simp_all
  qed
qed

lemma encodeFrames_counters:
  fixes ctx :: "'k E2EEcontext"
  assumes "arrayGet (cryptoKeyRing ctx)
             (jsRemainder (currentKeyIndex ctx) (int (length (cryptoKeyRing ctx)))) = Some cryptoKey"
    and "\<forall>frame \<in> set frames. synchronizationSource (snd frame) = ssrc"
  shows "\<exists>idx. map counterBytes (fst (encodeFrames encrypt ctx frames)) =
                 map (\<lambda>i. bigEndian32 ((countFor ctx (fst (hd frames)) ssrc + i) mod 0xFFFF)) idx \<and>
               sorted_wrt (<) idx \<and> (\<forall>i \<in> set idx. i < length frames)"
  using assms
proof (induction frames arbitrary: ctx)
  case Nil
  show ?case
    by (rule exI [of _ "[]"]) simp
next
  case (Cons frame frames)
  define c where "c = countFor ctx (fst frame) ssrc"
  define ctx' where "ctx' = ctx\<lparr>sendCounts := (sendCounts ctx)(ssrc \<mapsto> c + 1)\<rparr>"
  have src: "synchronizationSource (snd frame) = ssrc"
    using Cons.prems(2) by simp
  obtain r where step: "encodeFunction encrypt (fst frame) ctx (snd frame) = (r, ctx')"
    and out: "emitted r = [] \<or>
              (\<exists>sent. r = Inr \<lparr>enqueued = [sent], logged = []\<rparr> \<and>
                 nonceOf sent = makeIv (snd frame) c)"
    using encodeFunction_step [OF Cons.prems(1), of encrypt "fst frame" "snd frame"]
    unfolding src c_def ctx'_def by blast
  have active': "arrayGet (cryptoKeyRing ctx')
      (jsRemainder (currentKeyIndex ctx') (int (length (cryptoKeyRing ctx')))) = Some cryptoKey"
    using Cons.prems(1) by (simp add: ctx'_def)
  have count': "countFor ctx' random' ssrc = c + 1" for random'
    by (simp add: countFor_def ctx'_def)
  obtain idx where
    rest: "map counterBytes (fst (encodeFrames encrypt ctx' frames)) =
             map (\<lambda>i. bigEndian32 ((c + 1 + i) mod 0xFFFF)) idx"
    and sorted: "sorted_wrt (<) idx" and bound: "\<forall>i \<in> set idx. i < length frames"
    using Cons.IH [OF active'] Cons.prems(2) unfolding count' by auto
  have shifted: "map (\<lambda>i. bigEndian32 ((c + 1 + i) mod 0xFFFF)) idx =
                 map (\<lambda>i. bigEndian32 ((c + i) mod 0xFFFF)) (map Suc idx)"
    by simp
  have sortedSuc: "sorted_wrt (<) (map Suc idx)"
    using sorted by (simp add: sorted_wrt_map)
  show ?case
  proof (cases r)
    case (Inl e)
    then have "fst (encodeFrames encrypt ctx (frame # frames)) = []"
      using step by simp
    then show ?thesis
      by (intro exI [of _ "[]"]) simp
  next
    case (Inr eff)
    then have outs: "fst (encodeFrames encrypt ctx (frame # frames)) =
                       emitted r @ fst (encodeFrames encrypt ctx' frames)"
      using step by (simp add: emitted_def)
    from out show ?thesis
    proof
      assume "emitted r = []"
      then have "map counterBytes (fst (encodeFrames encrypt ctx (frame # frames))) =
                   map (\<lambda>i. bigEndian32 ((c + i) mod 0xFFFF)) (map Suc idx)"
        using outs rest shifted by simp
      then show ?thesis
        using sortedSuc bound unfolding c_def
        by (intro exI [of _ "map Suc idx"]) auto
    next
      assume "\<exists>sent. r = Inr \<lparr>enqueued = [sent], logged = []\<rparr> \<and>
                 nonceOf sent = makeIv (snd frame) c"
      then obtain sent where r: "r = Inr \<lparr>enqueued = [sent], logged = []\<rparr>"
        and nonce: "nonceOf sent = makeIv (snd frame) c"
        by blast
      have "counterBytes sent = bigEndian32 ((c + 0) mod 0xFFFF)"
        using counterBytes_makeIv [OF nonce] by simp
      then have "map counterBytes (fst (encodeFrames encrypt ctx (frame # frames))) =
                   map (\<lambda>i. bigEndian32 ((c + i) mod 0xFFFF)) (0 # map Suc idx)"
        using outs rest shifted r by (simp add: emitted_def)
      moreover have "sorted_wrt (<) (0 # map Suc idx)"
        using sortedSuc by auto
      ultimately show ?thesis
        using bound unfolding c_def
        by (intro exI [of _ "0 # map Suc idx"]) auto
    qed
  qed
qed

lemma distinct_map_outer:
  assumes "distinct (map (\<lambda>x. g (f x)) xs)"
  shows "distinct (map f xs)"
  using assms by (induction xs) auto

lemma encodeFrames_nonces_distinct:
  fixes ctx :: "'k E2EEcontext"
  assumes "arrayGet (cryptoKeyRing ctx)
             (jsRemainder (currentKeyIndex ctx) (int (length (cryptoKeyRing ctx)))) = Some cryptoKey"
    and "\<forall>frame \<in> set frames. synchronizationSource (snd frame) = ssrc"
    and "length frames \<le> 65535"
  shows "distinct (map nonceOf (fst (encodeFrames encrypt ctx frames)))"
proof -
  define c where "c = countFor ctx (fst (hd frames)) ssrc"
  obtain idx where
    eq: "map counterBytes (fst (encodeFrames encrypt ctx frames)) =
           map (\<lambda>i. bigEndian32 ((c + i) mod 0xFFFF)) idx"
    and sorted: "sorted_wrt (<) idx" and bound: "\<forall>i \<in> set idx. i < length frames"
    using encodeFrames_counters [OF assms(1,2), of encrypt] unfolding c_def by blast
  have "distinct idx"
    using sorted by (simp add: strict_sorted_iff)
  moreover have "inj_on (\<lambda>i. bigEndian32 ((c + i) mod 0xFFFF)) (set idx)"
  proof (rule inj_onI)
    fix i j
    assume i: "i \<in> set idx" and j: "j \<in> set idx"
      and same: "bigEndian32 ((c + i) mod 0xFFFF) = bigEndian32 ((c + j) mod 0xFFFF)"
    have "i < length frames" and "j < length frames"
      using bound i j by blast+
    then have "i < 65535" and "j < 65535"
      using assms(3) by linarith+
    then show "i = j"
      using same by (rule counter_bytes_inj)
  qed
  ultimately have "distinct (map counterBytes (fst (encodeFrames encrypt ctx frames)))"
    unfolding eq by (simp add: distinct_map)
  then have "distinct (map (\<lambda>sent. drop 8 (nonceOf sent)) (fst (encodeFrames encrypt ctx frames)))"
    by (simp add: counterBytes_def [abs_def])
  then show ?thesis
    by (rule distinct_map_outer)
qed

lemma encodeFrames_all_sent:
  fixes ctx :: "'k E2EEcontext"
  assumes "arrayGet (cryptoKeyRing ctx)
             (jsRemainder (currentKeyIndex ctx) (int (length (cryptoKeyRing ctx)))) = Some cryptoKey"
    and "\<forall>frame \<in> set frames.
           \<exists>t. type (snd frame) = Some t \<and> unencryptedBytes t \<le> length (data (snd frame))"
    and "\<forall>iv plainText. encrypt cryptoKey iv plainText \<noteq> None"
  shows "length (fst (encodeFrames encrypt ctx frames)) = length frames"
  using assms
proof (induction frames arbitrary: ctx)
  case Nil
  show ?case by simp
next
  case (Cons frame frames)
  let ?ctx' = "ctx\<lparr>sendCounts := (sendCounts ctx)(synchronizationSource (snd frame) \<mapsto>
                 countFor ctx (fst frame) (synchronizationSource (snd frame)) + 1)\<rparr>"
  have active': "arrayGet (cryptoKeyRing ?ctx')
      (jsRemainder (currentKeyIndex ?ctx') (int (length (cryptoKeyRing ?ctx')))) = Some cryptoKey"
    using Cons.prems(1) by simp
  have rest: "length (fst (encodeFrames encrypt ?ctx' frames)) = length frames"
    using Cons.IH [OF active'] Cons.prems(2,3) by simp
  obtain t where typed: "type (snd frame) = Some t"
    and long: "unencryptedBytes t \<le> length (data (snd frame))"
    using Cons.prems(2) by auto
  obtain cipherText where
    "encrypt cryptoKey
       (makeIv (snd frame) (countFor ctx (fst frame) (synchronizationSource (snd frame))))
       (drop (unencryptedBytes t) (data (snd frame))) = Some cipherText"
    using Cons.prems(3) by fastforce
  then show ?case
    using typed long rest
    by (simp add: encodeFunction_active [OF Cons.prems(1)])
qed

lemma encodeFrames_nonces_nth:
  fixes ctx :: "'k E2EEcontext"
  assumes "arrayGet (cryptoKeyRing ctx)
             (jsRemainder (currentKeyIndex ctx) (int (length (cryptoKeyRing ctx)))) = Some cryptoKey"
    and "\<forall>frame \<in> set frames. synchronizationSource (snd frame) = ssrc"
    and "\<forall>frame \<in> set frames.
           \<exists>t. type (snd frame) = Some t \<and> unencryptedBytes t \<le> length (data (snd frame))"
    and "\<forall>iv plainText. encrypt cryptoKey iv plainText \<noteq> None"
  shows "length (fst (encodeFrames encrypt ctx frames)) = length frames \<and>
         (\<forall>i < length frames.
            nonceOf (fst (encodeFrames encrypt ctx frames) ! i) =
              makeIv (snd (frames ! i)) (countFor ctx (fst (hd frames)) ssrc + i))"
  using assms
proof (induction frames arbitrary: ctx)
  case Nil
  show ?case by simp
next
  case (Cons frame frames)
  define c where "c = countFor ctx (fst frame) ssrc"
  define ctx' where "ctx' = ctx\<lparr>sendCounts := (sendCounts ctx)(ssrc \<mapsto> c + 1)\<rparr>"
  have src: "synchronizationSource (snd frame) = ssrc"
    using Cons.prems(2) by simp
  have active': "arrayGet (cryptoKeyRing ctx')
      (jsRemainder (currentKeyIndex ctx') (int (length (cryptoKeyRing ctx')))) = Some cryptoKey"
    using Cons.prems(1) by (simp add: ctx'_def)
  have count': "countFor ctx' random' ssrc = c + 1" for random'
    by (simp add: countFor_def ctx'_def)
  have rest: "length (fst (encodeFrames encrypt ctx' frames)) = length frames \<and>
         (\<forall>i < length frames.
            nonceOf (fst (encodeFrames encrypt ctx' frames) ! i) =
              makeIv (snd (frames ! i)) (c + 1 + i))"
    using Cons.IH [OF active'] Cons.prems(2,3,4) unfolding count' by simp
  obtain t where typed: "type (snd frame) = Some t"
    and long: "unencryptedBytes t \<le> length (data (snd frame))"
    using Cons.prems(3) by auto
  obtain cipherText where enc:
    "encrypt cryptoKey (makeIv (snd frame) c)
       (drop (unencryptedBytes t) (data (snd frame))) = Some cipherText"
    using Cons.prems(4) by fastforce
  let ?sent = "(snd frame)\<lparr>data := take (unencryptedBytes t) (data (snd frame)) @ cipherText
                 @ makeIv (snd frame) c @ [0]\<rparr>"
  have step: "encodeFunction encrypt (fst frame) ctx (snd frame) =
                (Inr \<lparr>enqueued = [?sent], logged = []\<rparr>, ctx')"
    using typed long enc
    by (simp add: encodeFunction_active [OF Cons.prems(1)] src c_def [symmetric] ctx'_def)
  have outs: "fst (encodeFrames encrypt ctx (frame # frames)) =
                ?sent # fst (encodeFrames encrypt ctx' frames)"
    by (simp add: step)
  have first: "nonceOf ?sent = makeIv (snd frame) c"
    by (rule nonceOf_encoded) (rule length_makeIv)
  have "nonceOf (fst (encodeFrames encrypt ctx (frame # frames)) ! i) =
          makeIv (snd ((frame # frames) ! i)) (c + i)"
    if i: "i < length (frame # frames)" for i
  proof (cases i)
    case 0
    then show ?thesis
      unfolding outs using first by simp
  next
    case (Suc j)
    then have "j < length frames"
      using i by simp
    then show ?thesis
      unfolding outs using rest Suc by simp
  qed
  then show ?case
    using rest outs by (simp add: c_def)
qed

lemma counter_wraps_at_65535: "makeIv chunk (c + 65535) = makeIv chunk c"
  by (simp add: makeIv_eq)

section \<open>C1: the round trip\<close>

text \<open>
  C1. The claim: decoding what the encoder made of a key or delta frame gives the frame
  back, byte for byte. The decoder allocates \<open>10 + plainText.byteLength\<close> bytes whatever
  the frame type, where the encoder used \<open>unencryptedBytes[chunk.type]\<close>: a delta frame
  (3 clear bytes) comes back with 7 zero bytes appended (lemma
  \<open>roundtrip_delta_frame_slot0\<close>; a key frame sent from slot 0 does come back as it was,
  lemma \<open>roundtrip_key_frame_slot0\<close>). Evaluated on the five-byte delta frame
  \<open>deltaFrame\<close> with the key in slot 0: the decoder enqueues twelve bytes.
\<close>

theorem roundtrip_deltaFrame:
  "encodeThenDecode shiftEncrypt shiftDecrypt 5 contextSlot0 deltaFrame =
     Inr \<lparr>enqueued = [deltaFrame\<lparr>data := data deltaFrame @ [0, 0, 0, 0, 0, 0, 0]\<rparr>],
          logged = []\<rparr>"
  unfolding encodeThenDecode_def encode_deltaFrame_slot0
  by (simp add: decode_sentDeltaFrame) (simp add: deltaFrame_def)

section \<open>C2: the wire layout and the key index byte\<close>

text \<open>
  C2. The claim: the encoder's output is the clear prefix, the ciphertext, the 12-byte
  IV and a last byte equal to the key index. The code assigns the key index to the
  property \<open>unencryptedBytes + cipherText.byteLength + ivLength\<close>, which is the string
  \<open>[object Object]...\<close> and no element of the array, so the last byte keeps the 0 the
  buffer was created with (lemma \<open>encoded_layout\<close>: prefix, ciphertext and IV are
  placed as claimed). Evaluated with the key in slot 1: the frame is sent with last
  byte 0, not 1.
\<close>

theorem key_index_byte_stays_zero:
  "encodeFunction shiftEncrypt 5 contextSlot1 keyFrame =
     (Inr \<lparr>enqueued = [sentKeyFrame], logged = []\<rparr>,
      contextSlot1\<lparr>sendCounts := [42 \<mapsto> 6]\<rparr>) \<and>
   keyIndexByte sentKeyFrame = [0] \<and>
   jsRemainder (currentKeyIndex contextSlot1) (int (length (cryptoKeyRing contextSlot1))) = 1"
proof -
  have count: "countFor contextSlot1 5 (synchronizationSource keyFrame) = 5"
    by (simp add: countFor_def contextSlot1_def)
  have enc: "shiftEncrypt 7 [0, 0, 0, 42, 0, 0, 3, 232, 0, 0, 0, 5] [10, 11]
               = Some ([17, 18] @ replicate 16 54)"
    by (simp add: shiftEncrypt_def shiftTag_def)
  have "encodeFunction shiftEncrypt 5 contextSlot1 keyFrame =
     (Inr \<lparr>enqueued = [sentKeyFrame], logged = []\<rparr>,
      contextSlot1\<lparr>sendCounts := [42 \<mapsto> 6]\<rparr>)"
    unfolding encodeFunction_active [OF slot1_active] count keyFrame_iv
    using enc by (simp add: keyFrame_def contextSlot1_def sentKeyFrame_def replicate_16)
  moreover have "keyIndexByte sentKeyFrame = [0]"
    by (simp add: keyIndexByte_def sentKeyFrame_def)
  moreover have "jsRemainder (currentKeyIndex contextSlot1)
                   (int (length (cryptoKeyRing contextSlot1))) = 1"
    by (simp add: jsRemainder_def contextSlot1_def)
  ultimately show ?thesis
    by simp
qed

section \<open>C3: what setKey does\<close>

text \<open>
  C3. The claim: \<open>setKey\<close> advances the current index and installs the derived key.
  The code derives the key and stops at its \<open>TODO\<close>: whatever the derivation
  returns, the context is unchanged, and a fresh context still has index -1 and an
  empty ring after the call.
\<close>

theorem setKey_installs_nothing:
  "snd (setKey deriveKey secret ctx) = ctx \<and>
   currentKeyIndex (snd (setKey deriveKey secret (constructor opts))) = - 1 \<and>
   cryptoKeyRing (snd (setKey deriveKey secret (constructor opts))) = replicate 8 None"
  by (simp add: setKey_def constructor_def keyRingSize_def split: sum.splits)

section \<open>C4: the send count in the IV\<close>

text \<open>
  C4, as amended. Whenever the encoder finds a key, it leaves the source's send count
  one above the count it read, and bytes 8 to 11 of the IV of the frame it sends hold that
  count reduced modulo 0xFFFF (65535), big-endian.
\<close>

theorem nonce_counter_bytes:
  assumes "arrayGet (cryptoKeyRing ctx)
             (jsRemainder (currentKeyIndex ctx) (int (length (cryptoKeyRing ctx)))) = Some cryptoKey"
  shows "sendCounts (snd (encodeFunction encrypt random ctx chunk)) (synchronizationSource chunk)
           = Some (countFor ctx random (synchronizationSource chunk) + 1) \<and>
         (\<forall>sent \<in> set (emitted (fst (encodeFunction encrypt random ctx chunk))).
            counterBytes sent
              = bigEndian32 (countFor ctx random (synchronizationSource chunk) mod 0xFFFF))"
proof -
  have small: "toUint32 (n mod 0xFFFF) = n mod 0xFFFF" for n :: nat
  proof -
    have "n mod 0xFFFF < 2 ^ 32"
      by (rule less_trans [of _ "0xFFFF"]) simp_all
    then show ?thesis
      by (simp add: toUint32_def)
  qed
  have "counterBytes sent
          = bigEndian32 (countFor ctx random (synchronizationSource chunk) mod 0xFFFF)"
    if mem: "sent \<in> set (emitted (fst (encodeFunction encrypt random ctx chunk)))" for sent
  proof -
    obtain cipherText t where
      "sent = chunk\<lparr>data := take (unencryptedBytes t) (data chunk) @ cipherText
                 @ makeIv chunk (countFor ctx random (synchronizationSource chunk)) @ [0]\<rparr>"
      using emitted_encodeFunction [OF mem] by blast
    then have "nonceOf sent = makeIv chunk (countFor ctx random (synchronizationSource chunk))"
      by (simp add: nonceOf_encoded length_makeIv)
    then show ?thesis
      by (simp add: counterBytes_def makeIv_eq length_bigEndian32 small)
  qed
  then show ?thesis
    using assms by (simp add: encodeFunction_active)
qed

theorem nonce_counter_bytes_witness:
  "sendCounts (snd (encodeFunction shiftEncrypt 5 contextSlot0 deltaFrame)) 42 = Some 6 \<and>
   emitted (fst (encodeFunction shiftEncrypt 5 contextSlot0 deltaFrame)) = [sentDeltaFrame] \<and>
   counterBytes sentDeltaFrame = [0, 0, 0, 5]"
  using nonce_counter_bytes [OF slot0_active, of shiftEncrypt 5 deltaFrame]
  by (simp add: encode_deltaFrame_slot0 emitted_def countFor_def)
     (simp add: contextSlot0_def deltaFrame_def bigEndian32_def)

text \<open>
  The claim as stated, with modulus 0x10000, fails at send count 65535: the IV carries 0
  where 65535 modulo 0x10000 is 65535.
\<close>

theorem nonce_counter_not_mod_0x10000:
  "sendCounts contextCount65535 (synchronizationSource deltaFrame) = Some 65535 \<and>
   map counterBytes (emitted (fst (encodeFunction shiftEncrypt 5 contextCount65535 deltaFrame)))
     = [[0, 0, 0, 0]] \<and>
   bigEndian32 (65535 mod 0x10000) = [0, 0, 255, 255]"
proof -
  have count: "countFor contextCount65535 5 (synchronizationSource deltaFrame) = 65535"
    by (simp add: countFor_def contextCount65535_def deltaFrame_def)
  have iv: "makeIv deltaFrame 65535 = [0, 0, 0, 42, 0, 0, 3, 232, 0, 0, 0, 0]"
    by (simp add: makeIv_eq deltaFrame_def toUint32_def bigEndian32_def)
  have sent: "emitted (fst (encodeFunction shiftEncrypt 5 contextCount65535 deltaFrame)) =
      [deltaFrame\<lparr>data := take 3 (data deltaFrame)
          @ (map (\<lambda>b. b + 7) (drop 3 (data deltaFrame))
             @ shiftTag 7 (makeIv deltaFrame 65535) (drop 3 (data deltaFrame)))
          @ makeIv deltaFrame 65535 @ [0]\<rparr>]"
  proof -
    have ty: "type deltaFrame = Some Delta" and len: "\<not> length (data deltaFrame) < 3"
      by (simp_all add: deltaFrame_def)
    show ?thesis
      unfolding encodeFunction_active [OF count65535_active] count
      by (simp add: ty len emitted_def shiftEncrypt_def)
  qed
  have "map counterBytes (emitted (fst (encodeFunction shiftEncrypt 5 contextCount65535 deltaFrame)))
          = [[0, 0, 0, 0]]"
    unfolding sent list.map counterBytes_def
    unfolding nonceOf_encoded [OF length_makeIv]
    by (simp add: iv)
  moreover have "bigEndian32 (65535 mod 0x10000) = [0, 0, 255, 255]"
    by (simp add: bigEndian32_def)
  moreover have "sendCounts contextCount65535 (synchronizationSource deltaFrame) = Some 65535"
    by (simp add: contextCount65535_def deltaFrame_def)
  ultimately show ?thesis
    by simp
qed

section \<open>C5: the encoder without a key\<close>

text \<open>
  C5. When the ring holds no key at the current index, the encoder enqueues nothing for
  the frame, reports the failure to the logger and leaves the context as it was.
\<close>

theorem encode_without_key_drops_and_logs:
  assumes "arrayGet (cryptoKeyRing ctx)
             (jsRemainder (currentKeyIndex ctx) (int (length (cryptoKeyRing ctx)))) = None"
  shows "encodeFunction encrypt random ctx chunk =
           (Inr \<lparr>enqueued = [],
                 logged = [LogText ''Could not encrypt frame as there is no key.'']\<rparr>, ctx)"
  using assms by (simp add: encodeFunction_def)

theorem encode_without_key_witness:
  "encodeFunction shiftEncrypt 5 (constructor ''salt'') keyFrame =
     (Inr \<lparr>enqueued = [],
           logged = [LogText ''Could not encrypt frame as there is no key.'']\<rparr>,
      constructor ''salt'')"
proof -
  have "arrayGet (cryptoKeyRing (constructor ''salt'' :: byte E2EEcontext))
          (jsRemainder (currentKeyIndex (constructor ''salt'' :: byte E2EEcontext))
             (int (length (cryptoKeyRing (constructor ''salt'' :: byte E2EEcontext))))) = None"
    by (simp add: constructor_def keyRingSize_def jsRemainder_def arrayGet_def)
  then show ?thesis
    by (rule encode_without_key_drops_and_logs)
qed

section \<open>C6: frames too short for the wire layout\<close>

text \<open>
  C6, as amended. The decoder has no length check. A frame shorter than the clear
  prefix of its type (read from its first byte) plus 13 bytes is enqueued unmodified
  when the ring slot named by its last byte is empty, or the payload is empty; when
  that slot holds a key the decoder throws a RangeError while it takes the views for the
  IV and the ciphertext, before any decryption, and enqueues nothing.
\<close>

theorem decode_short_frame:
  assumes "length (data chunk) < unencryptedBytes (chunkTypeOf (data chunk)) + 13"
  shows "decodeFunction decrypt ctx chunk =
           (case lastByteKey ctx (data chunk) of
              None \<Rightarrow> Inr \<lparr>enqueued = [chunk], logged = []\<rparr>
            | Some cryptoKey \<Rightarrow> Inl RangeError)"
proof (cases "lastByteKey ctx (data chunk)")
  case None
  then show ?thesis
    by (simp add: decodeFunction_def)
next
  case (Some cryptoKey)
  then show ?thesis
    using assms by (simp add: decodeFunction_keyed)
qed

theorem decode_short_frame_witness:
  "decodeFunction shiftDecrypt contextSlot1 shortFrame =
     Inr \<lparr>enqueued = [shortFrame], logged = []\<rparr>"
proof -
  have short: "length (data shortFrame) < unencryptedBytes (chunkTypeOf (data shortFrame)) + 13"
    using unencryptedBytes_bounds [of "chunkTypeOf (data shortFrame)"]
    by (simp add: shortFrame_def)
  have "lastByteKey contextSlot1 (data shortFrame) = None"
    by (simp add: lastByteKey_def contextSlot1_def shortFrame_def arrayGet_def)
  then show ?thesis
    using decode_short_frame [OF short, of shiftDecrypt contextSlot1] by simp
qed

text \<open>
  The claim as stated fails with a key in slot 0 on a two-byte frame that ends in 0:
  the frame is not passed through.
\<close>

theorem decode_short_frame_throws:
  "length (data shortFrame) = 2 \<and>
   decodeFunction shiftDecrypt contextSlot0 shortFrame = Inl RangeError \<and>
   emitted (decodeFunction shiftDecrypt contextSlot0 shortFrame) = []"
proof -
  have k: "lastByteKey contextSlot0 (data shortFrame) = Some 7"
    by (simp add: lastByteKey_def contextSlot0_def shortFrame_def arrayGet_def)
  have "length (data shortFrame) < unencryptedBytes (chunkTypeOf (data shortFrame)) + 13"
    using unencryptedBytes_bounds [of "chunkTypeOf (data shortFrame)"]
    by (simp add: shortFrame_def)
  then have "decodeFunction shiftDecrypt contextSlot0 shortFrame = Inl RangeError"
    by (simp add: decodeFunction_keyed [OF k])
  then show ?thesis
    by (simp add: emitted_def) (simp add: shortFrame_def)
qed

section \<open>C7: which frames a transform can fail on\<close>




section \<open>C8: the clear prefix\<close>

text \<open>
  C8. The table maps key frames to 10 and delta frames to 3, and every frame the encoder
  sends is a key or delta frame that starts with the first \<open>unencryptedBytes[type]\<close>
  bytes of its input, which has at least that many.
\<close>

theorem encode_keeps_prefix:
  "unencryptedBytes Key = 10 \<and> unencryptedBytes Delta = 3 \<and>
   (\<forall>sent \<in> set (emitted (fst (encodeFunction encrypt random ctx chunk))).
      \<exists>t. type chunk = Some t \<and>
          unencryptedBytes t \<le> length (data chunk) \<and>
          take (unencryptedBytes t) (data sent) = take (unencryptedBytes t) (data chunk))"
proof (cases "arrayGet (cryptoKeyRing ctx)
                (jsRemainder (currentKeyIndex ctx) (int (length (cryptoKeyRing ctx))))")
  case None
  then show ?thesis
    by (simp add: encodeFunction_no_key emitted_def)
next
  case (Some cryptoKey)
  then show ?thesis
    by (simp add: encodeFunction_active emitted_def split: option.splits)
qed

theorem encode_keeps_prefix_witness:
  "emitted (fst (encodeFunction shiftEncrypt 5 contextSlot0 deltaFrame)) = [sentDeltaFrame] \<and>
   type deltaFrame = Some Delta \<and>
   take 3 (data sentDeltaFrame) = [1, 2, 3] \<and> take 3 (data deltaFrame) = [1, 2, 3]"
  using encode_keeps_prefix [of shiftEncrypt 5 contextSlot0 deltaFrame]
  by (simp add: encode_deltaFrame_slot0 emitted_def) (simp add: deltaFrame_def)

section \<open>C9: how long nonces do not repeat\<close>

text \<open>
  C9, as amended. With a key active, the frames of one source that a run of at most
  65535 consecutive frames sends, so of any 10,000, carry pairwise distinct IVs,
  whatever their timestamps and whatever the count the run starts from; and when every
  frame is a key or delta frame with its clear prefix and the cipher does not fail, all
  frames of the run are sent.
\<close>

theorem nonces_distinct_within_65535_frames:
  fixes ctx :: "'k E2EEcontext"
  assumes "arrayGet (cryptoKeyRing ctx)
             (jsRemainder (currentKeyIndex ctx) (int (length (cryptoKeyRing ctx)))) = Some cryptoKey"
    and "\<forall>frame \<in> set frames. synchronizationSource (snd frame) = ssrc"
    and "length frames \<le> 65535"
  shows "distinct (map nonceOf (fst (encodeFrames encrypt ctx frames))) \<and>
         ((\<forall>frame \<in> set frames.
             \<exists>t. type (snd frame) = Some t \<and>
                 unencryptedBytes t \<le> length (data (snd frame))) \<and>
          (\<forall>iv plainText. encrypt cryptoKey iv plainText \<noteq> None) \<longrightarrow>
          length (fst (encodeFrames encrypt ctx frames)) = length frames)"
proof (intro conjI impI)
  show "distinct (map nonceOf (fst (encodeFrames encrypt ctx frames)))"
    using assms by (rule encodeFrames_nonces_distinct)
next
  assume "(\<forall>frame \<in> set frames.
             \<exists>t. type (snd frame) = Some t \<and>
                 unencryptedBytes t \<le> length (data (snd frame))) \<and>
          (\<forall>iv plainText. encrypt cryptoKey iv plainText \<noteq> None)"
  then show "length (fst (encodeFrames encrypt ctx frames)) = length frames"
    using encodeFrames_all_sent [OF assms(1), of frames encrypt] by simp
qed

theorem nonces_distinct_witness:
  "distinct (map nonceOf
     (fst (encodeFrames shiftEncrypt contextSlot0 (replicate 10000 (5, deltaFrame))))) \<and>
   length (fst (encodeFrames shiftEncrypt contextSlot0 (replicate 10000 (5, deltaFrame)))) = 10000"
proof -
  have source: "\<forall>frame \<in> set (replicate 10000 (5 :: nat, deltaFrame)).
                  synchronizationSource (snd frame) = 42"
    by (simp add: deltaFrame_def)
  have len: "length (replicate 10000 (5 :: nat, deltaFrame)) \<le> 65535"
    by simp
  have long: "\<forall>frame \<in> set (replicate 10000 (5 :: nat, deltaFrame)).
                \<exists>t. type (snd frame) = Some t \<and>
                    unencryptedBytes t \<le> length (data (snd frame))"
    by (simp add: deltaFrame_def)
  have enc: "\<forall>iv plainText. shiftEncrypt 7 iv plainText \<noteq> None"
    by (simp add: shiftEncrypt_def)
  have "length (replicate 10000 (5 :: nat, deltaFrame)) = 10000"
    by simp
  then show ?thesis
    using nonces_distinct_within_65535_frames [OF slot0_active source len, of shiftEncrypt]
      long enc
    by metis
qed

text \<open>
  The claim as stated, that a nonce is never reused for a source and key, fails on a
  longer run: the count field is the send count modulo 65535, so of 65536 frames with
  the same timestamp the first and the last carry the same IV.
\<close>

theorem nonce_reused_after_65535_frames:
  "\<not> distinct (map nonceOf
        (fst (encodeFrames shiftEncrypt contextSlot0 (replicate 65536 (5, deltaFrame)))))"
proof -
  let ?frames = "replicate 65536 (5 :: nat, deltaFrame)"
  let ?sent = "fst (encodeFrames shiftEncrypt contextSlot0 ?frames)"
  have source: "\<forall>frame \<in> set ?frames. synchronizationSource (snd frame) = 42"
    by (simp add: deltaFrame_def)
  have long: "\<forall>frame \<in> set ?frames.
                \<exists>t. type (snd frame) = Some t \<and>
                    unencryptedBytes t \<le> length (data (snd frame))"
    by (simp add: deltaFrame_def)
  have enc: "\<forall>iv plainText. shiftEncrypt 7 iv plainText \<noteq> None"
    by (simp add: shiftEncrypt_def)
  have run: "length ?sent = length ?frames \<and>
         (\<forall>i < length ?frames.
            nonceOf (?sent ! i) = makeIv (snd (?frames ! i)) (countFor contextSlot0 (fst (hd ?frames)) 42 + i))"
    using slot0_active source long enc by (rule encodeFrames_nonces_nth)
  have len: "length ?sent = 65536"
    using run by simp
  have "nonceOf (?sent ! 0) = makeIv deltaFrame (countFor contextSlot0 (fst (hd ?frames)) 42 + 0)"
    using run by simp
  moreover have "nonceOf (?sent ! 65535)
                   = makeIv deltaFrame (countFor contextSlot0 (fst (hd ?frames)) 42 + 65535)"
    using run by simp
  ultimately have same: "nonceOf (?sent ! 0) = nonceOf (?sent ! 65535)"
    by (simp add: counter_wraps_at_65535)
  show ?thesis
  proof
    assume d: "distinct (map nonceOf ?sent)"
    have "0 < length (map nonceOf ?sent)" and "65535 < length (map nonceOf ?sent)"
      using len by simp_all
    then have "(map nonceOf ?sent ! 0 = map nonceOf ?sent ! 65535) = ((0 :: nat) = 65535)"
      by (rule nth_eq_iff_index_eq [OF d])
    moreover have "map nonceOf ?sent ! 0 = map nonceOf ?sent ! 65535"
      using same len by simp
    ultimately show False
      by simp
  qed
qed

section \<open>C10: what one encoded frame changes\<close>

text \<open>
  C10. One call of the encoder leaves the key ring, the current index and the options
  as they were and leaves the send count of every other source as it was. Without a key
  it leaves the count of the frame's own source alone; with a key it sets that count to
  one above the stored count, or to one above the random seed when the source had no
  count yet.
\<close>

theorem encode_frame_effect:
  "cryptoKeyRing (snd (encodeFunction encrypt random ctx chunk)) = cryptoKeyRing ctx \<and>
   currentKeyIndex (snd (encodeFunction encrypt random ctx chunk)) = currentKeyIndex ctx \<and>
   options (snd (encodeFunction encrypt random ctx chunk)) = options ctx \<and>
   (\<forall>ssrc. ssrc \<noteq> synchronizationSource chunk \<longrightarrow>
      sendCounts (snd (encodeFunction encrypt random ctx chunk)) ssrc = sendCounts ctx ssrc) \<and>
   sendCounts (snd (encodeFunction encrypt random ctx chunk)) (synchronizationSource chunk) =
     (if arrayGet (cryptoKeyRing ctx)
           (jsRemainder (currentKeyIndex ctx) (int (length (cryptoKeyRing ctx)))) = None
      then sendCounts ctx (synchronizationSource chunk)
      else case sendCounts ctx (synchronizationSource chunk) of
             None \<Rightarrow> Some (random + 1)
           | Some c \<Rightarrow> Some (c + 1))"
proof (cases "arrayGet (cryptoKeyRing ctx)
                (jsRemainder (currentKeyIndex ctx) (int (length (cryptoKeyRing ctx))))")
  case None
  then show ?thesis
    by (simp add: encodeFunction_no_key)
next
  case (Some cryptoKey)
  then show ?thesis
    by (simp add: encodeFunction_active countFor_def split: option.splits)
qed

theorem encode_frame_effect_witness:
  "cryptoKeyRing (snd (encodeFunction shiftEncrypt 5 contextTwoSources deltaFrame))
     = [Some 7, None, None, None, None, None, None, None] \<and>
   currentKeyIndex (snd (encodeFunction shiftEncrypt 5 contextTwoSources deltaFrame)) = 0 \<and>
   sendCounts contextTwoSources 42 = Some 9 \<and>
   sendCounts (snd (encodeFunction shiftEncrypt 5 contextTwoSources deltaFrame)) 42 = Some 10 \<and>
   sendCounts contextTwoSources 43 = Some 9 \<and>
   sendCounts (snd (encodeFunction shiftEncrypt 5 contextTwoSources deltaFrame)) 43 = Some 9 \<and>
   sendCounts (snd (encodeFunction shiftEncrypt 5 contextTwoSources deltaFrame)) 44 = None \<and>
   sendCounts contextSlot0 42 = None \<and>
   sendCounts (snd (encodeFunction shiftEncrypt 5 contextSlot0 deltaFrame)) 42 = Some 6"
proof -
  have active: "arrayGet (cryptoKeyRing contextTwoSources)
      (jsRemainder (currentKeyIndex contextTwoSources)
         (int (length (cryptoKeyRing contextTwoSources)))) = Some 7"
    by (simp add: contextTwoSources_def contextSlot0_def jsRemainder_def arrayGet_def)
  have source: "synchronizationSource deltaFrame = 42"
    by (simp add: deltaFrame_def)
  have stored: "sendCounts contextTwoSources 42 = Some 9"
    "sendCounts contextTwoSources 43 = Some 9" "sendCounts contextTwoSources 44 = None"
    by (simp_all add: contextTwoSources_def)
  have fresh: "sendCounts contextSlot0 42 = None"
    by (simp add: contextSlot0_def)
  have ring: "cryptoKeyRing contextTwoSources = [Some 7, None, None, None, None, None, None, None]"
    "currentKeyIndex contextTwoSources = 0"
    by (simp_all add: contextTwoSources_def contextSlot0_def)
  show ?thesis
    using encode_frame_effect [of shiftEncrypt 5 contextTwoSources deltaFrame]
      encode_frame_effect [of shiftEncrypt 5 contextSlot0 deltaFrame]
      active slot0_active
    by (simp add: source stored fresh ring)
qed

end
